theory Spec2Isabelle
  imports Main
begin

section \<open>Strings\<close>

text \<open>
  JavaScript strings are modelled as \<^typ>\<open>string\<close> (lists of 8-bit characters).  Every
  character the compiled pattern can accept is ASCII, so a file name with other characters
  never matches in either world.
\<close>

definition is_digit :: "char \<Rightarrow> bool" where
  "is_digit c = (c \<in> set ''0123456789'')"

definition is_upper :: "char \<Rightarrow> bool" where
  "is_upper c = (c \<in> set ''ABCDEFGHIJKLMNOPQRSTUVWXYZ'')"

definition is_lower :: "char \<Rightarrow> bool" where
  "is_lower c = (c \<in> set ''abcdefghijklmnopqrstuvwxyz'')"

text \<open>The character class \<^verbatim>\<open>[A-Za-z]\<close>.\<close>

definition is_alpha :: "char \<Rightarrow> bool" where
  "is_alpha c = (is_upper c \<or> is_lower c)"

text \<open>The character class \<^verbatim>\<open>[-\/]\<close>.\<close>

definition is_sep :: "char \<Rightarrow> bool" where
  "is_sep c = (c = CHR ''-'' \<or> c = CHR ''/'')"

text \<open>\<^verbatim>\<open>String.prototype.toLowerCase\<close> on the characters of the model.\<close>

definition lower_char :: "char \<Rightarrow> char" where
  "lower_char c = (if is_upper c then char_of (of_char c + (32::nat)) else c)"

definition toLowerCase :: "string \<Rightarrow> string" where
  "toLowerCase s = map lower_char s"

text \<open>\<^verbatim>\<open>s.startsWith(p)\<close>.\<close>

definition startsWith :: "string \<Rightarrow> string \<Rightarrow> bool" where
  "startsWith s p = (take (length p) s = p)"

text \<open>\<^verbatim>\<open>s.replace('.md', '')\<close>: a string pattern replaces its first occurrence only.\<close>

fun replace_md :: "string \<Rightarrow> string" where
  "replace_md [] = []"
| "replace_md (c # cs) =
     (if startsWith (c # cs) ''.md'' then drop 3 (c # cs) else c # replace_md cs)"

text \<open>
  \<^verbatim>\<open>format.split(/([-\/])/)\<close>: the string is cut at every separator character and, the
  pattern having a capture group, each separator is kept as a part of its own.
\<close>

fun format_split :: "string \<Rightarrow> string list" where
  "format_split [] = [[]]"
| "format_split (c # cs) =
     (if is_sep c then [] # [c] # format_split cs
      else (case format_split cs of [] \<Rightarrow> [[c]] | p # ps \<Rightarrow> (c # p) # ps))"

text \<open>\<^verbatim>\<open>s.split(c)\<close> for a one-character separator.\<close>

fun split_char :: "char \<Rightarrow> string \<Rightarrow> string list" where
  "split_char d [] = [[]]"
| "split_char d (c # cs) =
     (if c = d then [] # split_char d cs
      else (case split_char d cs of [] \<Rightarrow> [[c]] | p # ps \<Rightarrow> (c # p) # ps))"

text \<open>
  \<^verbatim>\<open>s.split(separator)\<close>.  The separator of a compiled format is the empty string (the
  string is then cut into its characters) or one separator character.
\<close>

definition js_split :: "string \<Rightarrow> string \<Rightarrow> string list" where
  "js_split sep s = (case sep of [] \<Rightarrow> map (\<lambda>c. [c]) s | d # _ \<Rightarrow> split_char d s)"

section \<open>Numbers\<close>

text \<open>
  The values the parser holds in \<^verbatim>\<open>day\<close>, \<^verbatim>\<open>month\<close> and \<^verbatim>\<open>year\<close>: still
  \<^verbatim>\<open>undefined\<close>, a number, \<^verbatim>\<open>NaN\<close>, or an object (a property inherited from
  \<^verbatim>\<open>Object.prototype\<close>).
\<close>

datatype jsnum = Undefined | NaN | Num int | Object

fun truthy :: "jsnum \<Rightarrow> bool" where
  "truthy Undefined = False"
| "truthy NaN = False"
| "truthy (Num n) = (n \<noteq> 0)"
| "truthy Object = True"

text \<open>\<^verbatim>\<open>a < b\<close> and \<^verbatim>\<open>a > b\<close> against a number: false whenever \<^verbatim>\<open>a\<close> is \<^verbatim>\<open>NaN\<close>.\<close>

fun js_lt :: "jsnum \<Rightarrow> int \<Rightarrow> bool" where
  "js_lt (Num a) b = (a < b)"
| "js_lt _ b = False"

fun js_gt :: "jsnum \<Rightarrow> int \<Rightarrow> bool" where
  "js_gt (Num a) b = (a > b)"
| "js_gt _ b = False"

definition digit_val :: "char \<Rightarrow> int" where
  "digit_val c = int (of_char c) - 48"

definition is_space :: "char \<Rightarrow> bool" where
  "is_space c = (of_char c \<in> {9, 10, 11, 12, 13, 32 :: nat})"

text \<open>
  \<^verbatim>\<open>parseInt(s, 10)\<close>: leading white space is skipped, a sign is read, then the longest
  run of digits; without a digit the result is \<^verbatim>\<open>NaN\<close>.
\<close>

definition digits_value :: "string \<Rightarrow> int" where
  "digits_value ds = foldl (\<lambda>acc c. 10 * acc + digit_val c) 0 ds"

definition parse_digits :: "string \<Rightarrow> jsnum" where
  "parse_digits s =
     (let ds = takeWhile is_digit s in if ds = [] then NaN else Num (digits_value ds))"

fun js_neg :: "jsnum \<Rightarrow> jsnum" where
  "js_neg (Num n) = Num (- n)"
| "js_neg v = v"

definition parseInt :: "string \<Rightarrow> jsnum" where
  "parseInt s =
     (case dropWhile is_space s of
        [] \<Rightarrow> NaN
      | c # cs \<Rightarrow>
          if c = CHR ''-'' then js_neg (parse_digits cs)
          else if c = CHR ''+'' then parse_digits cs
          else parse_digits (c # cs))"

text \<open>\<^verbatim>\<open>String(n)\<close> for an integer, and \<^verbatim>\<open>padStart(2, '0')\<close>.\<close>

fun nat_digits :: "nat \<Rightarrow> string" where
  "nat_digits n =
     (if n < 10 then [char_of (48 + n)] else nat_digits (n div 10) @ [char_of (48 + n mod 10)])"

declare nat_digits.simps [simp del]

definition String :: "int \<Rightarrow> string" where
  "String n = (if n < 0 then CHR ''-'' # nat_digits (nat (- n)) else nat_digits (nat n))"

definition padStart2 :: "string \<Rightarrow> string" where
  "padStart2 s = replicate (2 - length s) CHR ''0'' @ s"

section \<open>Regular expressions\<close>

text \<open>
  The pattern handed to \<^verbatim>\<open>new RegExp\<close> is a concatenation of the pieces
  \<^verbatim>\<open>\d{n}\<close>, \<^verbatim>\<open>[A-Za-z]{n}\<close>, \<^verbatim>\<open>[A-Za-z]{n,}\<close> and single literal characters,
  between \<^verbatim>\<open>^\<close> and \<^verbatim>\<open>$\<close>.  It is kept as the list of these pieces.
\<close>

datatype re_atom = Digits nat | Alpha nat | AlphaMin nat | Lit char

fun re_match :: "re_atom list \<Rightarrow> string \<Rightarrow> bool" where
  "re_match [] s = (s = [])"
| "re_match (Digits n # r) s =
     (n \<le> length s \<and> list_all is_digit (take n s) \<and> re_match r (drop n s))"
| "re_match (Alpha n # r) s =
     (n \<le> length s \<and> list_all is_alpha (take n s) \<and> re_match r (drop n s))"
| "re_match (AlphaMin n # r) s =
     list_ex (\<lambda>k. list_all is_alpha (take k s) \<and> re_match r (drop k s)) [n ..< Suc (length s)]"
| "re_match (Lit c # r) s = (case s of [] \<Rightarrow> False | x # xs \<Rightarrow> x = c \<and> re_match r xs)"

text \<open>\<^verbatim>\<open>regex.test(s)\<close> for the anchored pattern.\<close>

definition regex_test :: "re_atom list \<Rightarrow> string \<Rightarrow> bool" where
  "regex_test r s = re_match r s"

section \<open>The token grammar\<close>

datatype field_type = Day | Month | Year

text \<open>
  \<^verbatim>\<open>tokens\<close> and \<^verbatim>\<open>monthNames\<close> are object literals, so a lookup that misses the
  literal's own keys still finds the properties inherited from \<^verbatim>\<open>Object.prototype\<close>.
  Such a value is truthy and has neither a \<^verbatim>\<open>regex\<close> nor a \<^verbatim>\<open>type\<close> property.
\<close>

definition object_prototype_keys :: "string list" where
  "object_prototype_keys =
     [''constructor'', ''hasOwnProperty'', ''isPrototypeOf'', ''propertyIsEnumerable'',
      ''toLocaleString'', ''toString'', ''valueOf'', ''__defineGetter__'', ''__defineSetter__'',
      ''__lookupGetter__'', ''__lookupSetter__'', ''__proto__'']"

datatype tok_entry = Token "re_atom list" field_type | Inherited

definition token_table :: "(string \<times> re_atom list \<times> field_type) list" where
  "token_table =
     [(''DD'', [Digits 2], Day),
      (''MM'', [Digits 2], Month),
      (''YYYY'', [Digits 4], Year),
      (''YY'', [Digits 2], Year),
      (''MMM'', [Alpha 3], Month),
      (''MMMM'', [AlphaMin 4], Month)]"

definition tokens :: "string \<Rightarrow> tok_entry option" where
  "tokens part =
     (case map_of token_table part of
        Some (r, t) \<Rightarrow> Some (Token r t)
      | None \<Rightarrow> if part \<in> set object_prototype_keys then Some Inherited else None)"

text \<open>
  \<^verbatim>\<open>regexStr += tokens[part].regex\<close>: an inherited value has no such property and the
  text \<^verbatim>\<open>undefined\<close> is appended, which the pattern reads as nine literal characters.
\<close>

fun entry_regex :: "tok_entry \<Rightarrow> re_atom list" where
  "entry_regex (Token r t) = r"
| "entry_regex Inherited = map Lit ''undefined''"

fun entry_type :: "tok_entry \<Rightarrow> field_type option" where
  "entry_type (Token r t) = Some t"
| "entry_type Inherited = None"

definition month_table :: "(string \<times> int) list" where
  "month_table =
     [(''jan'', 1), (''feb'', 2), (''mar'', 3), (''apr'', 4), (''may'', 5), (''jun'', 6),
      (''jul'', 7), (''aug'', 8), (''sep'', 9), (''oct'', 10), (''nov'', 11), (''dec'', 12),
      (''january'', 1), (''february'', 2), (''march'', 3), (''april'', 4), (''may'', 5),
      (''june'', 6), (''july'', 7), (''august'', 8), (''september'', 9), (''october'', 10),
      (''november'', 11), (''december'', 12)]"

definition monthNames :: "string \<Rightarrow> jsnum" where
  "monthNames key =
     (case map_of month_table key of
        Some n \<Rightarrow> Num n
      | None \<Rightarrow> if key \<in> set object_prototype_keys then Object else Undefined)"

section \<open>The format compiler\<close>

datatype part = Part (token: string) (ptype: "field_type option")

record format_info =
  regex :: "re_atom list"
  parts :: "part list"
  separator :: string

text \<open>
  The body of the loop over \<^verbatim>\<open>formatParts\<close>.  A part that holds a separator character
  is that one character (see \<open>format_split\<close>), so escaping it yields one literal.
\<close>

definition compile_part :: "string \<Rightarrow> format_info \<Rightarrow> format_info" where
  "compile_part p st =
     (case tokens p of
        Some e \<Rightarrow> st\<lparr>regex := regex st @ entry_regex e, parts := parts st @ [Part p (entry_type e)]\<rparr>
      | None \<Rightarrow>
          if list_ex is_sep p then st\<lparr>regex := regex st @ map Lit p, separator := p\<rparr>
          else st)"

fun compile_parts :: "string list \<Rightarrow> format_info \<Rightarrow> format_info" where
  "compile_parts [] st = st"
| "compile_parts (p # ps) st = compile_parts ps (compile_part p st)"

text \<open>The \<^verbatim>\<open>try\<close> block of \<^verbatim>\<open>getDateFormatInfo\<close> for a format that is a string.\<close>

definition compile :: "string \<Rightarrow> format_info" where
  "compile format =
     (let st = compile_parts (format_split format) \<lparr>regex = [], parts = [], separator = []\<rparr>
      in st\<lparr>regex := regex st @ map Lit ''.md''\<rparr>)"

section \<open>The date parser\<close>

text \<open>
  A \<^verbatim>\<open>Date\<close> read through \<^verbatim>\<open>getFullYear\<close>, \<^verbatim>\<open>getMonth\<close> (counted from 0) and
  \<^verbatim>\<open>getDate\<close>: a local calendar day.
\<close>

datatype date = Date (getFullYear: int) (getMonth: int) (getDate: int)

definition leap_year :: "int \<Rightarrow> bool" where
  "leap_year y = (y mod 4 = 0 \<and> (y mod 100 \<noteq> 0 \<or> y mod 400 = 0))"

definition days_in_month :: "int \<Rightarrow> int \<Rightarrow> int" where
  "days_in_month y m =
     (if m = 1 then (if leap_year y then 29 else 28)
      else if m \<in> {3, 5, 8, 10} then 30 else 31)"

text \<open>
  \<^verbatim>\<open>new Date(year, monthIndex, day)\<close> where the parser calls it: the year is within
  1000..9999, the month index within 0..11 and the day within 1..31, each checked before.
  A day beyond the end of the month rolls over into the next month, by three days at most.
  The calendar is the Gregorian one of a time zone that skips no day.
\<close>

definition new_Date :: "int \<Rightarrow> int \<Rightarrow> int \<Rightarrow> date" where
  "new_Date y m d =
     (if d \<le> days_in_month y m then Date y m d
      else if m = 11 then Date (y + 1) 0 (d - days_in_month y m)
      else Date y (m + 1) (d - days_in_month y m))"

text \<open>
  The loop over \<^verbatim>\<open>parts\<close>.  \<^verbatim>\<open>offset\<close> grows by one with every part, so the parts
  and the segments are walked side by side; \<^verbatim>\<open>segments[offset]\<close> is \<^verbatim>\<open>undefined\<close> when
  the segments have run out, and no segment is empty.
\<close>

definition resolve_year :: "string \<Rightarrow> jsnum \<Rightarrow> jsnum" where
  "resolve_year tok year =
     (if tok = ''YY'' then
        (case year of Num v \<Rightarrow> if v < 50 then Num (2000 + v) else Num (1900 + v) | _ \<Rightarrow> NaN)
      else year)"

fun parse_loop ::
  "part list \<Rightarrow> string list \<Rightarrow> jsnum \<times> jsnum \<times> jsnum \<Rightarrow> (jsnum \<times> jsnum \<times> jsnum) option" where
  "parse_loop [] segs st = Some st"
| "parse_loop (p # ps) [] st = None"
| "parse_loop (p # ps) (segment # segs) (day, month, year) =
     (if segment = [] then None
      else case ptype p of
        Some Day \<Rightarrow>
          (let day = parseInt segment in
           if js_lt day 1 \<or> js_gt day 31 then None else parse_loop ps segs (day, month, year))
      | Some Month \<Rightarrow>
          (if token p = ''MMM'' \<or> token p = ''MMMM'' then
             (let month = monthNames (toLowerCase segment) in
              if \<not> truthy month then None else parse_loop ps segs (day, month, year))
           else
             (let month = parseInt segment in
              if js_lt month 1 \<or> js_gt month 12 then None
              else parse_loop ps segs (day, month, year)))
      | Some Year \<Rightarrow>
          (let year = resolve_year (token p) (parseInt segment) in
           if js_lt year 1000 \<or> js_gt year 9999 then None
           else parse_loop ps segs (day, month, year))
      | None \<Rightarrow> parse_loop ps segs (day, month, year))"

text \<open>
  \<^verbatim>\<open>parseDate\<close>, the closure returned by \<^verbatim>\<open>getDateFormatInfo\<close>, with the compiled
  format it closes over as its first argument.  \<open>None\<close> is \<^verbatim>\<open>null\<close>.  A month that is
  an object makes the \<^verbatim>\<open>Date\<close> invalid: its getters return \<^verbatim>\<open>NaN\<close>, which differs
  from every year.
\<close>

definition parseDate :: "format_info \<Rightarrow> string \<Rightarrow> date option" where
  "parseDate info dateStr =
     (let cleanStr = replace_md dateStr in
      if \<not> regex_test (regex info) (cleanStr @ ''.md'') then None
      else
        let segments = filter (\<lambda>s. s \<noteq> []) (js_split (separator info) cleanStr) in
        case parse_loop (parts info) segments (Undefined, Undefined, Undefined) of
          None \<Rightarrow> None
        | Some (day, month, year) \<Rightarrow>
            if \<not> truthy day \<or> \<not> truthy month \<or> \<not> truthy year then None
            else
              (case (year, month, day) of
                 (Num y, Num m, Num d) \<Rightarrow>
                   (let date = new_Date y (m - 1) d in
                    if getFullYear date \<noteq> y \<or> getMonth date + 1 \<noteq> m \<or> getDate date \<noteq> d
                    then None else Some date)
               | _ \<Rightarrow> None))"

section \<open>Settings\<close>

text \<open>
  A value read from \<^verbatim>\<open>data.json\<close>.  Numbers are kept as integers: only whether the
  number is zero matters here.  \<open>JObject\<close> stands for any array or object.
\<close>

datatype js_value = JNull | JBool bool | JNumber int | JString string | JObject

fun js_truthy :: "js_value \<Rightarrow> bool" where
  "js_truthy JNull = False"
| "js_truthy (JBool b) = b"
| "js_truthy (JNumber n) = (n \<noteq> 0)"
| "js_truthy (JString s) = (s \<noteq> [])"
| "js_truthy JObject = True"

text \<open>
  The plugin's settings.  The date format is the one field the code checks the type of, so
  it is kept as a JSON value; the other fields have the types the code uses them at.
\<close>

record settings =
  targetFolder :: string
  showSummaryNotification :: bool
  dateFormat :: js_value
  useYearMonthSubfolders :: bool

definition default_settings :: settings where
  "default_settings =
     \<lparr>targetFolder = ''Old Daily Notes'', showSummaryNotification = True,
      dateFormat = JString ''DD-MM-YYYY'', useYearMonthSubfolders = False\<rparr>"

text \<open>\<^verbatim>\<open>s.match(/(DD|MM|YYYY|YY|MMM|MMMM)/)\<close> is truthy when an alternative occurs in \<open>s\<close>.\<close>

fun str_includes :: "string \<Rightarrow> string \<Rightarrow> bool" where
  "str_includes [] t = (t = [])"
| "str_includes (c # cs) t = (startsWith (c # cs) t \<or> str_includes cs t)"

definition isValidDateFormat :: "js_value \<Rightarrow> bool" where
  "isValidDateFormat format =
     (case format of
        JString s \<Rightarrow>
          s \<noteq> [] \<and> list_ex (str_includes s) [''DD'', ''MM'', ''YYYY'', ''YY'', ''MMM'', ''MMMM'']
      | _ \<Rightarrow> False)"

text \<open>What \<^verbatim>\<open>loadData\<close> returns: the fields \<^verbatim>\<open>data.json\<close> holds.\<close>

record saved_data =
  saved_targetFolder :: "string option"
  saved_showSummaryNotification :: "bool option"
  saved_dateFormat :: "js_value option"
  saved_useYearMonthSubfolders :: "bool option"

text \<open>\<^verbatim>\<open>loadSettings\<close>: \<^verbatim>\<open>Object.assign({}, this.settings, await this.loadData())\<close>.\<close>

definition loadSettings :: "settings \<Rightarrow> saved_data \<Rightarrow> settings" where
  "loadSettings s d =
     \<lparr>targetFolder = (case saved_targetFolder d of Some x \<Rightarrow> x | None \<Rightarrow> targetFolder s),
      showSummaryNotification =
        (case saved_showSummaryNotification d of Some x \<Rightarrow> x | None \<Rightarrow> showSummaryNotification s),
      dateFormat = (case saved_dateFormat d of Some x \<Rightarrow> x | None \<Rightarrow> dateFormat s),
      useYearMonthSubfolders =
        (case saved_useYearMonthSubfolders d of Some x \<Rightarrow> x | None \<Rightarrow> useYearMonthSubfolders s)\<rparr>"

text \<open>The settings \<^verbatim>\<open>onload\<close> leaves behind before it registers commands and the first pass.\<close>

definition onload :: "saved_data \<Rightarrow> settings" where
  "onload d =
     (let s = loadSettings default_settings d in
      if \<not> isValidDateFormat (dateFormat s) then s\<lparr>dateFormat := JString ''DD-MM-YYYY''\<rparr> else s)"

text \<open>The \<^verbatim>\<open>onChange\<close> handlers of the two text fields of the settings tab.\<close>

definition onChange_targetFolder :: "string \<Rightarrow> settings \<Rightarrow> settings" where
  "onChange_targetFolder v s = s\<lparr>targetFolder := (if v = [] then ''Old Daily Notes'' else v)\<rparr>"

definition onChange_dateFormat :: "string \<Rightarrow> settings \<Rightarrow> settings" where
  "onChange_dateFormat v s = s\<lparr>dateFormat := JString (if v = [] then ''DD-MM-YYYY'' else v)\<rparr>"

text \<open>
  \<^verbatim>\<open>getDateFormatInfo\<close>.  A format that is not a string has no \<^verbatim>\<open>split\<close> method; the
  \<^verbatim>\<open>catch\<close> block then calls \<^verbatim>\<open>this.getDateFormatInfo('DD-MM-YYYY')\<close>, and since the
  method declares no parameter the argument is dropped and the same settings are read again.
  \<open>None\<close> is a call that never returns a value (JavaScript ends it with a stack overflow).
\<close>

partial_function (option) getDateFormatInfo :: "settings \<Rightarrow> format_info option" where
  "getDateFormatInfo s =
     (case (if js_truthy (dateFormat s) then dateFormat s else JString ''DD-MM-YYYY'') of
        JString format \<Rightarrow> Some (compile format)
      | JNull \<Rightarrow> getDateFormatInfo s
      | JBool b \<Rightarrow> getDateFormatInfo s
      | JNumber n \<Rightarrow> getDateFormatInfo s
      | JObject \<Rightarrow> getDateFormatInfo s)"

declare getDateFormatInfo.simps [code]

section \<open>The vault\<close>

text \<open>
  The vault belongs to the host application, not to the plugin: the source only calls it.
  It is taken to be a list of files and a list of folder paths with the three calls the
  plugin makes: \<^verbatim>\<open>adapter.exists\<close>, true of the path of a file or of a folder;
  \<^verbatim>\<open>createFolder\<close>, which throws when the path exists; and \<^verbatim>\<open>rename\<close>, which throws
  when the destination exists.  The last component of every destination the plugin builds
  is the file's own name, so a move changes the path of the file and nothing else.
\<close>

record tfile =
  name :: string
  path :: string
  extension :: string

record vault =
  files :: "tfile list"
  folders :: "string list"

datatype error = FolderExists | DestinationExists | StackOverflow

definition adapter_exists :: "vault \<Rightarrow> string \<Rightarrow> bool" where
  "adapter_exists v p = (p \<in> set (folders v) \<or> p \<in> set (map path (files v)))"

definition createFolder :: "vault \<Rightarrow> string \<Rightarrow> error + vault" where
  "createFolder v p =
     (if adapter_exists v p then Inl FolderExists else Inr (v\<lparr>folders := folders v @ [p]\<rparr>))"

definition rename :: "vault \<Rightarrow> tfile \<Rightarrow> string \<Rightarrow> error + vault" where
  "rename v f newPath =
     (if adapter_exists v newPath then Inl DestinationExists
      else Inr (v\<lparr>files := map (\<lambda>g. if g = f then g\<lparr>path := newPath\<rparr> else g) (files v)\<rparr>))"

section \<open>The two operations\<close>

text \<open>
  The calls made on the host, in order, and the counters of the pass.  Notices and log lines
  are left out.
\<close>

datatype call = CreateFolder string | Rename tfile string

record run_state =
  vault_of :: vault
  foundCount :: nat
  movedCount :: nat
  skippedCount :: nat
  calls :: "call list"

definition start :: "vault \<Rightarrow> run_state" where
  "start v = \<lparr>vault_of = v, foundCount = 0, movedCount = 0, skippedCount = 0, calls = []\<rparr>"

text \<open>The date as \<^verbatim>\<open>year-month-day\<close> text, which both sides of the comparison build.\<close>

definition iso :: "date \<Rightarrow> string" where
  "iso d =
     String (getFullYear d) @ ''-'' @ padStart2 (String (getMonth d + 1)) @ ''-''
       @ padStart2 (String (getDate d))"

text \<open>\<^verbatim>\<open>if (!(await exists(p))) await createFolder(p)\<close>; an error leaves the operation.\<close>

definition ensure_folder :: "string \<Rightarrow> run_state \<Rightarrow> error + run_state" where
  "ensure_folder p st =
     (if \<not> adapter_exists (vault_of st) p then
        (case createFolder (vault_of st) p of
           Inl e \<Rightarrow> Inl e
         | Inr v \<Rightarrow> Inr (st\<lparr>vault_of := v, calls := calls st @ [CreateFolder p]\<rparr>))
      else Inr st)"

text \<open>
  The destination of a file, with the folders made on the way.  The two operations hold
  the same lines for it.
\<close>

definition new_path :: "settings \<Rightarrow> tfile \<Rightarrow> date \<Rightarrow> run_state \<Rightarrow> error + (string \<times> run_state)" where
  "new_path s file fileDate st =
     (if useYearMonthSubfolders s then
        (let year = getFullYear fileDate;
             month = padStart2 (String (getMonth fileDate + 1));
             yearFolder = targetFolder s @ ''/'' @ String year;
             monthFolder = yearFolder @ ''/'' @ month
         in case ensure_folder yearFolder st of
              Inl e \<Rightarrow> Inl e
            | Inr st1 \<Rightarrow>
                (case ensure_folder monthFolder st1 of
                   Inl e \<Rightarrow> Inl e
                 | Inr st2 \<Rightarrow> Inr (monthFolder @ ''/'' @ name file, st2)))
      else Inr (targetFolder s @ ''/'' @ name file, st))"

text \<open>\<^verbatim>\<open>try { await rename(file, newPath); movedCount++ } catch (e) { ... }\<close>.\<close>

definition try_rename :: "tfile \<Rightarrow> string \<Rightarrow> run_state \<Rightarrow> run_state" where
  "try_rename file newPath st =
     (case rename (vault_of st) file newPath of
        Inl e \<Rightarrow> st\<lparr>calls := calls st @ [Rename file newPath]\<rparr>
      | Inr v \<Rightarrow>
          st\<lparr>vault_of := v, movedCount := movedCount st + 1,
             calls := calls st @ [Rename file newPath]\<rparr>)"

text \<open>The body of the loop of \<^verbatim>\<open>moveOldDailyNotes\<close>.\<close>

definition move_file ::
  "settings \<Rightarrow> format_info \<Rightarrow> string \<Rightarrow> tfile \<Rightarrow> run_state \<Rightarrow> error + run_state" where
  "move_file s info todayISO file st =
     (if extension file = ''md'' \<and> regex_test (regex info) (name file) then
        (let st = st\<lparr>foundCount := foundCount st + 1\<rparr> in
         case parseDate info (replace_md (name file)) of
           None \<Rightarrow> Inr (st\<lparr>skippedCount := skippedCount st + 1\<rparr>)
         | Some fileDate \<Rightarrow>
             if iso fileDate \<noteq> todayISO then
               (case new_path s file fileDate st of
                  Inl e \<Rightarrow> Inl e
                | Inr (newPath, st) \<Rightarrow>
                    if \<not> startsWith (path file) (targetFolder s @ ''/'') then
                      Inr (try_rename file newPath st)
                    else Inr (st\<lparr>skippedCount := skippedCount st + 1\<rparr>))
             else Inr (st\<lparr>skippedCount := skippedCount st + 1\<rparr>))
      else Inr st)"

fun move_loop ::
  "settings \<Rightarrow> format_info \<Rightarrow> string \<Rightarrow> tfile list \<Rightarrow> run_state \<Rightarrow> error + run_state" where
  "move_loop s info todayISO [] st = Inr st"
| "move_loop s info todayISO (file # rest) st =
     (case move_file s info todayISO file st of
        Inl e \<Rightarrow> Inl e
      | Inr st' \<Rightarrow> move_loop s info todayISO rest st')"

text \<open>
  \<^verbatim>\<open>moveOldDailyNotes\<close>, the pass over the whole vault, given the settings, today's date
  and the vault.  \<open>Inl\<close> is the outer \<^verbatim>\<open>catch\<close>.
\<close>

definition moveOldDailyNotes :: "settings \<Rightarrow> date \<Rightarrow> vault \<Rightarrow> error + run_state" where
  "moveOldDailyNotes s today v =
     (case getDateFormatInfo s of
        None \<Rightarrow> Inl StackOverflow
      | Some info \<Rightarrow>
          (case ensure_folder (targetFolder s) (start v) of
             Inl e \<Rightarrow> Inl e
           | Inr st \<Rightarrow> move_loop s info (iso today) (files (vault_of st)) st))"

text \<open>The body of the loop of \<^verbatim>\<open>relocateOldNotes\<close>.\<close>

definition relocate_file :: "settings \<Rightarrow> format_info \<Rightarrow> tfile \<Rightarrow> run_state \<Rightarrow> error + run_state" where
  "relocate_file s info file st =
     (if extension file = ''md'' \<and> regex_test (regex info) (name file) then
        (case parseDate info (replace_md (name file)) of
           None \<Rightarrow> Inr st
         | Some fileDate \<Rightarrow>
             (case new_path s file fileDate st of
                Inl e \<Rightarrow> Inl e
              | Inr (newPath, st) \<Rightarrow> Inr (try_rename file newPath st)))
      else Inr st)"

fun relocate_loop ::
  "settings \<Rightarrow> format_info \<Rightarrow> tfile list \<Rightarrow> run_state \<Rightarrow> error + run_state" where
  "relocate_loop s info [] st = Inr st"
| "relocate_loop s info (file # rest) st =
     (case relocate_file s info file st of
        Inl e \<Rightarrow> Inl e
      | Inr st' \<Rightarrow> relocate_loop s info rest st')"

text \<open>\<^verbatim>\<open>relocateOldNotes\<close>, the pass over the files under the legacy folder.\<close>

definition relocateOldNotes :: "settings \<Rightarrow> vault \<Rightarrow> error + run_state" where
  "relocateOldNotes s v =
     (let oldFolder = ''Old Daily Notes'' in
      case getDateFormatInfo s of
        None \<Rightarrow> Inl StackOverflow
      | Some info \<Rightarrow>
          (case ensure_folder (targetFolder s) (start v) of
             Inl e \<Rightarrow> Inl e
           | Inr st \<Rightarrow>
               relocate_loop s info
                 (filter (\<lambda>file. startsWith (path file) (oldFolder @ ''/'')) (files (vault_of st)))
                 st))"

section \<open>Derived notions\<close>

text \<open>
  The definitions of this section are not in the source.  They name what the operations
  compute on the way, so that the properties below can be stated and proved.
\<close>

subsection \<open>Folders and destinations\<close>

text \<open>
  The state after \<^verbatim>\<open>if (!(await exists(p))) await createFolder(p)\<close>, the two folder paths
  the source calls \<^verbatim>\<open>yearFolder\<close> and \<^verbatim>\<open>monthFolder\<close>, the state once both are there, and
  the path the source calls \<^verbatim>\<open>newPath\<close>.
\<close>

definition ensured :: "string \<Rightarrow> run_state \<Rightarrow> run_state" where
  "ensured p st =
     (if adapter_exists (vault_of st) p then st
      else st\<lparr>vault_of := (vault_of st)\<lparr>folders := folders (vault_of st) @ [p]\<rparr>,
              calls := calls st @ [CreateFolder p]\<rparr>)"

definition year_folder :: "settings \<Rightarrow> date \<Rightarrow> string" where
  "year_folder s d = targetFolder s @ ''/'' @ String (getFullYear d)"

definition month_folder :: "settings \<Rightarrow> date \<Rightarrow> string" where
  "month_folder s d = year_folder s d @ ''/'' @ padStart2 (String (getMonth d + 1))"

definition with_folders :: "settings \<Rightarrow> date \<Rightarrow> run_state \<Rightarrow> run_state" where
  "with_folders s d st =
     (if useYearMonthSubfolders s then ensured (month_folder s d) (ensured (year_folder s d) st)
      else st)"

definition destination :: "settings \<Rightarrow> tfile \<Rightarrow> date \<Rightarrow> string" where
  "destination s file d =
     (if useYearMonthSubfolders s then month_folder s d @ ''/'' @ name file
      else targetFolder s @ ''/'' @ name file)"

subsection \<open>What a pass does with a file\<close>

text \<open>
  The date a file is read as (none when its extension or its name is not accepted, or when
  its name does not parse), and the destination the archive pass will call \<^verbatim>\<open>rename\<close>
  with (none when the file is skipped).
\<close>

definition file_date :: "format_info \<Rightarrow> tfile \<Rightarrow> date option" where
  "file_date info file =
     (if extension file = ''md'' \<and> regex_test (regex info) (name file)
      then parseDate info (replace_md (name file)) else None)"

definition archive_target :: "settings \<Rightarrow> format_info \<Rightarrow> string \<Rightarrow> tfile \<Rightarrow> string option" where
  "archive_target s info t file =
     (case file_date info file of
        None \<Rightarrow> None
      | Some d \<Rightarrow>
          if iso d \<noteq> t \<and> \<not> startsWith (path file) (targetFolder s @ ''/'')
          then Some (destination s file d) else None)"

text \<open>The loop bodies as functions on the state, and the calls that create a folder.\<close>

definition move_step :: "settings \<Rightarrow> format_info \<Rightarrow> string \<Rightarrow> tfile \<Rightarrow> run_state \<Rightarrow> run_state" where
  "move_step s info t file st = (case move_file s info t file st of Inr st' \<Rightarrow> st' | Inl e \<Rightarrow> st)"

definition relocate_step :: "settings \<Rightarrow> format_info \<Rightarrow> tfile \<Rightarrow> run_state \<Rightarrow> run_state" where
  "relocate_step s info file st = (case relocate_file s info file st of Inr st' \<Rightarrow> st' | Inl e \<Rightarrow> st)"

definition is_create :: "call \<Rightarrow> bool" where
  "is_create c = (case c of CreateFolder p \<Rightarrow> True | Rename f p \<Rightarrow> False)"

text \<open>A file the archive pass cannot move in a vault: it is skipped, or its destination exists.\<close>

definition blocked :: "settings \<Rightarrow> format_info \<Rightarrow> string \<Rightarrow> vault \<Rightarrow> tfile \<Rightarrow> bool" where
  "blocked s info t v g =
     (case archive_target s info t g of None \<Rightarrow> True | Some p \<Rightarrow> adapter_exists v p)"

subsection \<open>Fields of a date string\<close>

text \<open>
  The \<^verbatim>\<open>segments\<close> of \<^verbatim>\<open>parseDate\<close>; a segment that the check of its part turns down;
  a day that exists in the calendar, within the years the parser admits; and the values the
  loop can hold once their range checks have passed.
\<close>

definition segments_of :: "format_info \<Rightarrow> string \<Rightarrow> string list" where
  "segments_of info dateStr =
     filter (\<lambda>s. s \<noteq> []) (js_split (separator info) (replace_md dateStr))"




subsection \<open>Formats of tokens joined by a separator\<close>







section \<open>Rendering a date\<close>





section \<open>Example data\<close>

text \<open>Files, vaults and settings on which the properties are run.\<close>

definition note_2019 :: tfile where
  "note_2019 = \<lparr>name = ''15-07-2019.md'', path = ''Daily/15-07-2019.md'', extension = ''md''\<rparr>"

definition note_today :: tfile where
  "note_today =
     \<lparr>name = ''02-11-2026.md'', path = ''Old Daily Notes/02-11-2026.md'', extension = ''md''\<rparr>"

definition archived_2019 :: tfile where
  "archived_2019 =
     \<lparr>name = ''15-07-2019.md'', path = ''Archive/15-07-2019.md'', extension = ''md''\<rparr>"

definition example_vault :: vault where
  "example_vault = \<lparr>files = [note_2019, note_today], folders = [''Daily'', ''Old Daily Notes'']\<rparr>"

definition archive_settings :: "bool \<Rightarrow> settings" where
  "archive_settings sub =
     \<lparr>targetFolder = ''Archive'', showSummaryNotification = True,
      dateFormat = JString ''DD-MM-YYYY'', useYearMonthSubfolders = sub\<rparr>"

definition example_today :: date where
  "example_today = Date 2026 10 2"

definition no_saved_data :: saved_data where
  "no_saved_data =
     \<lparr>saved_targetFolder = None, saved_showSummaryNotification = None,
      saved_dateFormat = None, saved_useYearMonthSubfolders = None\<rparr>"


definition note_compact :: tfile where
  "note_compact = \<lparr>name = ''15Jul2019.md'', path = ''Daily/15Jul2019.md'', extension = ''md''\<rparr>"

definition note_year :: tfile where
  "note_year = \<lparr>name = ''2020.md'', path = ''Daily/2020.md'', extension = ''md''\<rparr>"

definition format_settings :: "string \<Rightarrow> settings" where
  "format_settings fmt =
     \<lparr>targetFolder = ''Archive'', showSummaryNotification = True,
      dateFormat = JString fmt, useYearMonthSubfolders = False\<rparr>"

section \<open>Reading numbers\<close>

lemma is_digit_cases:
  "is_digit c \<longleftrightarrow> c = CHR ''0'' \<or> c = CHR ''1'' \<or> c = CHR ''2'' \<or> c = CHR ''3'' \<or> c = CHR ''4''
     \<or> c = CHR ''5'' \<or> c = CHR ''6'' \<or> c = CHR ''7'' \<or> c = CHR ''8'' \<or> c = CHR ''9''"
  by (auto simp: is_digit_def)

lemma digit_val_range: "is_digit c \<Longrightarrow> 0 \<le> digit_val c \<and> digit_val c \<le> 9"
  by (auto simp: is_digit_cases digit_val_def)

lemma digit_not_space: "is_digit c \<Longrightarrow> \<not> is_space c"
  by (auto simp: is_digit_cases is_space_def)

lemma digit_not_sign: "is_digit c \<Longrightarrow> c \<noteq> CHR ''-'' \<and> c \<noteq> CHR ''+''"
  by (auto simp: is_digit_cases)

lemma parseInt_digits:
  assumes "list_all is_digit ds" "ds \<noteq> []"
  shows "parseInt ds = Num (digits_value ds)"
proof -
  obtain c cs where ds: "ds = c # cs" using assms(2) by (cases ds) auto
  have c: "is_digit c" using assms(1) ds by simp
  have tw: "takeWhile is_digit (c # cs) = c # cs"
    using assms(1) ds by (simp add: list_all_iff)
  have dw: "dropWhile is_space (c # cs) = c # cs" using c digit_not_space by simp
  have "parseInt (c # cs) = parse_digits (c # cs)"
    unfolding parseInt_def dw using digit_not_sign[OF c] by simp
  also have "\<dots> = Num (digits_value (c # cs))"
    unfolding parse_digits_def tw by simp
  finally show ?thesis using ds by simp
qed

text \<open>
  Claim C4.  A segment of two digits read under a \<^verbatim>\<open>YY\<close> part resolves to 2000 plus its
  value when the value is below 50 and to 1900 plus its value otherwise; the resolved year
  lies within 1000..9999, so the range check lets the loop go on with it.
\<close>

theorem two_digit_year:
  assumes "is_digit a" and "is_digit b"
  shows "let v = 10 * digit_val a + digit_val b;
             resolved = (if v < 50 then 2000 + v else 1900 + v)
         in parse_loop (Part ''YY'' (Some Year) # ps) ([a, b] # segs) (d, m, y)
              = parse_loop ps segs (d, m, Num resolved)
            \<and> 1000 \<le> resolved \<and> resolved \<le> 9999"
proof -
  have p: "parseInt [a, b] = Num (10 * digit_val a + digit_val b)"
    using parseInt_digits[of "[a, b]"] assms by (simp add: digits_value_def)
  have r: "0 \<le> digit_val a \<and> digit_val a \<le> 9" "0 \<le> digit_val b \<and> digit_val b \<le> 9"
    using assms digit_val_range by auto
  show ?thesis using p r by (simp add: Let_def resolve_year_def)
qed

theorem two_digit_year_witness:
  "parse_loop [Part ''YY'' (Some Year)] [''20''] (Undefined, Undefined, Undefined)
     = Some (Undefined, Undefined, Num 2020)
   \<and> parse_loop [Part ''YY'' (Some Year)] [''99''] (Undefined, Undefined, Undefined)
     = Some (Undefined, Undefined, Num 1999)
   \<and> parse_loop [Part ''YY'' (Some Year)] [''49''] (Undefined, Undefined, Undefined)
     = Some (Undefined, Undefined, Num 2049)
   \<and> parse_loop [Part ''YY'' (Some Year)] [''50''] (Undefined, Undefined, Undefined)
     = Some (Undefined, Undefined, Num 1950)"
proof -
  have d: "is_digit CHR ''2''" "is_digit CHR ''0''" "is_digit CHR ''9''" "is_digit CHR ''4''"
    "is_digit CHR ''5''"
    by (simp_all add: is_digit_def)
  show ?thesis
    using two_digit_year[OF d(1) d(2), of "[]" "[]" Undefined Undefined Undefined]
      two_digit_year[OF d(3) d(3), of "[]" "[]" Undefined Undefined Undefined]
      two_digit_year[OF d(4) d(3), of "[]" "[]" Undefined Undefined Undefined]
      two_digit_year[OF d(5) d(2), of "[]" "[]" Undefined Undefined Undefined]
    by (simp add: Let_def digit_val_def)
qed

section \<open>The loop bodies\<close>

lemma ensure_folder_ensured: "ensure_folder p st = Inr (ensured p st)"
  by (simp add: ensure_folder_def ensured_def createFolder_def)

lemma new_path_eq: "new_path s file d st = Inr (destination s file d, with_folders s d st)"
  by (simp add: new_path_def destination_def with_folders_def ensure_folder_ensured Let_def
      year_folder_def month_folder_def)

lemma move_file_eq:
  "move_file s info t file st =
     Inr (case file_date info file of
            None \<Rightarrow>
              if extension file = ''md'' \<and> regex_test (regex info) (name file)
              then st\<lparr>foundCount := foundCount st + 1, skippedCount := skippedCount st + 1\<rparr>
              else st
          | Some d \<Rightarrow>
              if iso d \<noteq> t then
                if \<not> startsWith (path file) (targetFolder s @ ''/'') then
                  try_rename file (destination s file d)
                    (with_folders s d (st\<lparr>foundCount := foundCount st + 1\<rparr>))
                else (with_folders s d (st\<lparr>foundCount := foundCount st + 1\<rparr>))
                       \<lparr>skippedCount := skippedCount st + 1\<rparr>
              else st\<lparr>foundCount := foundCount st + 1, skippedCount := skippedCount st + 1\<rparr>)"
  by (auto simp: move_file_def file_date_def new_path_eq Let_def with_folders_def ensured_def
      split: option.splits)

lemma move_file_step: "move_file s info t file st = Inr (move_step s info t file st)"
  by (simp add: move_step_def move_file_eq)

lemma relocate_file_eq:
  "relocate_file s info file st =
     Inr (case file_date info file of
            None \<Rightarrow> st
          | Some d \<Rightarrow> try_rename file (destination s file d) (with_folders s d st))"
  by (auto simp: relocate_file_def file_date_def new_path_eq split: option.splits)

lemma relocate_file_step: "relocate_file s info file st = Inr (relocate_step s info file st)"
  by (simp add: relocate_step_def relocate_file_eq)

lemma move_loop_foldl:
  "move_loop s info t fs st = Inr (foldl (\<lambda>st f. move_step s info t f st) st fs)"
  by (induction fs arbitrary: st) (simp_all add: move_file_step)

lemma relocate_loop_foldl:
  "relocate_loop s info fs st = Inr (foldl (\<lambda>st f. relocate_step s info f st) st fs)"
  by (induction fs arbitrary: st) (simp_all add: relocate_file_step)

subsection \<open>Folders\<close>

lemma ensured_files [simp]: "files (vault_of (ensured p st)) = files (vault_of st)"
  by (simp add: ensured_def)

lemma ensured_folders: "set (folders (vault_of st)) \<subseteq> set (folders (vault_of (ensured p st)))"
  by (auto simp: ensured_def)

lemma ensured_counts [simp]:
  "movedCount (ensured p st) = movedCount st"
  "foundCount (ensured p st) = foundCount st"
  "skippedCount (ensured p st) = skippedCount st"
  by (simp_all add: ensured_def)

lemma ensured_calls: "\<exists>cs. calls (ensured p st) = calls st @ cs \<and> list_all is_create cs"
  by (auto simp: ensured_def is_create_def)

lemma ensured_exists: "adapter_exists (vault_of (ensured p st)) p"
  by (auto simp: ensured_def adapter_exists_def)

lemma with_folders_files [simp]: "files (vault_of (with_folders s d st)) = files (vault_of st)"
  by (simp add: with_folders_def)

lemma with_folders_folders:
  "set (folders (vault_of st)) \<subseteq> set (folders (vault_of (with_folders s d st)))"
proof (cases "useYearMonthSubfolders s")
  case True
  have a: "set (folders (vault_of st)) \<subseteq> set (folders (vault_of (ensured (year_folder s d) st)))"
    by (rule ensured_folders)
  have b: "set (folders (vault_of (ensured (year_folder s d) st)))
      \<subseteq> set (folders (vault_of (ensured (month_folder s d) (ensured (year_folder s d) st))))"
    by (rule ensured_folders)
  show ?thesis using True order_trans[OF a b] by (simp add: with_folders_def)
next
  case False
  then show ?thesis by (simp add: with_folders_def)
qed

lemma with_folders_counts [simp]:
  "movedCount (with_folders s d st) = movedCount st"
  "foundCount (with_folders s d st) = foundCount st"
  "skippedCount (with_folders s d st) = skippedCount st"
  by (simp_all add: with_folders_def)

lemma with_folders_calls:
  "\<exists>cs. calls (with_folders s d st) = calls st @ cs \<and> list_all is_create cs"
proof (cases "useYearMonthSubfolders s")
  case True
  obtain c1 where c1: "calls (ensured (year_folder s d) st) = calls st @ c1" "list_all is_create c1"
    using ensured_calls by blast
  obtain c2 where c2:
    "calls (ensured (month_folder s d) (ensured (year_folder s d) st))
       = calls (ensured (year_folder s d) st) @ c2" "list_all is_create c2"
    using ensured_calls by blast
  show ?thesis using True c1 c2 by (auto simp: with_folders_def)
next
  case False
  then show ?thesis by (simp add: with_folders_def)
qed

lemma exists_mono:
  assumes "adapter_exists v p" "files v' = files v" "set (folders v) \<subseteq> set (folders v')"
  shows "adapter_exists v' p"
  using assms by (auto simp: adapter_exists_def)

subsection \<open>One step of the archive pass\<close>

lemma try_rename_blocked:
  "adapter_exists (vault_of st) p \<Longrightarrow> try_rename f p st = st\<lparr>calls := calls st @ [Rename f p]\<rparr>"
  by (simp add: try_rename_def rename_def)

lemma try_rename_free:
  "\<not> adapter_exists (vault_of st) p \<Longrightarrow>
   try_rename f p st =
     st\<lparr>vault_of := (vault_of st)\<lparr>files := map (\<lambda>g. if g = f then g\<lparr>path := p\<rparr> else g)
                                               (files (vault_of st))\<rparr>,
        movedCount := movedCount st + 1, calls := calls st @ [Rename f p]\<rparr>"
  by (simp add: try_rename_def rename_def)

lemma move_step_no_target:
  assumes "archive_target s info t f = None"
  shows "files (vault_of (move_step s info t f st)) = files (vault_of st)"
    and "set (folders (vault_of st)) \<subseteq> set (folders (vault_of (move_step s info t f st)))"
    and "movedCount (move_step s info t f st) = movedCount st"
    and "\<exists>cs. calls (move_step s info t f st) = calls st @ cs \<and> list_all is_create cs"
proof -
  let ?st1 = "st\<lparr>foundCount := foundCount st + 1\<rparr>"
  have f1: "set (folders (vault_of st)) \<subseteq> set (folders (vault_of (with_folders s d ?st1)))" for d
    using with_folders_folders[of ?st1 s d] by simp
  have c1: "\<exists>cs. calls (with_folders s d ?st1) = calls st @ cs \<and> list_all is_create cs" for d
    using with_folders_calls[of s d ?st1] by simp
  show "files (vault_of (move_step s info t f st)) = files (vault_of st)"
    using assms
    by (auto simp: move_step_def move_file_eq archive_target_def split: option.splits if_splits)
  show "set (folders (vault_of st)) \<subseteq> set (folders (vault_of (move_step s info t f st)))"
    using assms f1
    by (auto simp: move_step_def move_file_eq archive_target_def split: option.splits if_splits)
  show "movedCount (move_step s info t f st) = movedCount st"
    using assms
    by (auto simp: move_step_def move_file_eq archive_target_def split: option.splits if_splits)
  show "\<exists>cs. calls (move_step s info t f st) = calls st @ cs \<and> list_all is_create cs"
    using assms c1
    by (auto simp: move_step_def move_file_eq archive_target_def split: option.splits if_splits)
qed

lemma move_step_target:
  assumes "archive_target s info t f = Some p"
  shows "\<exists>st2. move_step s info t f st = try_rename f p st2
           \<and> files (vault_of st2) = files (vault_of st)
           \<and> set (folders (vault_of st)) \<subseteq> set (folders (vault_of st2))
           \<and> movedCount st2 = movedCount st
           \<and> (\<exists>cs. calls st2 = calls st @ cs \<and> list_all is_create cs)"
proof -
  let ?st1 = "st\<lparr>foundCount := foundCount st + 1\<rparr>"
  obtain d where d: "file_date info f = Some d" "iso d \<noteq> t"
    "\<not> startsWith (path f) (targetFolder s @ ''/'')" "p = destination s f d"
    using assms by (auto simp: archive_target_def split: option.splits if_splits)
  have "move_step s info t f st = try_rename f p (with_folders s d ?st1)"
    using d by (simp add: move_step_def move_file_eq)
  moreover have "set (folders (vault_of st)) \<subseteq> set (folders (vault_of (with_folders s d ?st1)))"
    using with_folders_folders[of ?st1 s d] by simp
  moreover have "\<exists>cs. calls (with_folders s d ?st1) = calls st @ cs \<and> list_all is_create cs"
    using with_folders_calls[of s d ?st1] by simp
  ultimately show ?thesis
    by (intro exI[of _ "with_folders s d ?st1"]) simp
qed

lemma destination_under_target:
  "startsWith (destination s f d) (targetFolder s @ ''/'')"
  by (simp add: destination_def startsWith_def month_folder_def year_folder_def)

lemma archive_target_under:
  "archive_target s info t f = Some p \<Longrightarrow> startsWith p (targetFolder s @ ''/'')"
  by (auto simp: archive_target_def destination_under_target split: option.splits if_splits)

lemma archive_target_outside:
  "archive_target s info t f = Some p \<Longrightarrow> \<not> startsWith (path f) (targetFolder s @ ''/'')"
  by (auto simp: archive_target_def split: option.splits if_splits)

lemma archive_target_moved:
  "startsWith p (targetFolder s @ ''/'') \<Longrightarrow> archive_target s info t (f\<lparr>path := p\<rparr>) = None"
  by (auto simp: archive_target_def file_date_def split: option.splits)

subsection \<open>What a pass leaves behind\<close>

lemma blocked_mono:
  assumes "blocked s info t v g" "files v' = files v" "set (folders v) \<subseteq> set (folders v')"
  shows "blocked s info t v' g"
  using assms exists_mono[of v _ v'] by (auto simp: blocked_def split: option.splits)

lemma move_step_settles:
  assumes inv: "\<forall>g\<in>set (files (vault_of st)). blocked s info t (vault_of st) g \<or> g \<in> set (f # rest)"
  shows "\<forall>g\<in>set (files (vault_of (move_step s info t f st))).
           blocked s info t (vault_of (move_step s info t f st)) g \<or> g \<in> set rest"
proof (cases "archive_target s info t f")
  case None
  note st' = move_step_no_target[OF None, of st]
  show ?thesis
  proof
    fix g assume "g \<in> set (files (vault_of (move_step s info t f st)))"
    then have g: "g \<in> set (files (vault_of st))" using st'(1) by simp
    then consider "blocked s info t (vault_of st) g" | "g = f" | "g \<in> set rest"
      using inv by auto
    then show "blocked s info t (vault_of (move_step s info t f st)) g \<or> g \<in> set rest"
    proof cases
      case 1
      then show ?thesis using blocked_mono[OF 1 st'(1) st'(2)] by simp
    next
      case 2
      then show ?thesis using None by (simp add: blocked_def)
    next
      case 3
      then show ?thesis by simp
    qed
  qed
next
  case (Some p)
  obtain st2 where st2: "move_step s info t f st = try_rename f p st2"
    "files (vault_of st2) = files (vault_of st)"
    "set (folders (vault_of st)) \<subseteq> set (folders (vault_of st2))"
    using move_step_target[OF Some, of st] by blast
  show ?thesis
  proof (cases "adapter_exists (vault_of st2) p")
    case True
    have v: "vault_of (move_step s info t f st) = vault_of st2"
      using st2(1) try_rename_blocked[OF True] by simp
    show ?thesis
    proof
      fix g assume "g \<in> set (files (vault_of (move_step s info t f st)))"
      then have g: "g \<in> set (files (vault_of st))" using v st2(2) by simp
      then consider "blocked s info t (vault_of st) g" | "g = f" | "g \<in> set rest"
        using inv by auto
      then show "blocked s info t (vault_of (move_step s info t f st)) g \<or> g \<in> set rest"
      proof cases
        case 1
        then show ?thesis using blocked_mono[OF 1 st2(2) st2(3)] v by simp
      next
        case 2
        then show ?thesis using Some True v by (simp add: blocked_def)
      next
        case 3
        then show ?thesis by simp
      qed
    qed
  next
    case False
    let ?upd = "\<lambda>g. if g = f then g\<lparr>path := p\<rparr> else g"
    let ?v' = "vault_of (move_step s info t f st)"
    have fs: "files ?v' = map ?upd (files (vault_of st))"
      and fo: "folders ?v' = folders (vault_of st2)"
      using st2(1,2) try_rename_free[OF False] by simp_all
    have under: "startsWith p (targetFolder s @ ''/'')" by (rule archive_target_under[OF Some])
    have outside: "\<not> startsWith (path f) (targetFolder s @ ''/'')"
      by (rule archive_target_outside[OF Some])
    show ?thesis
    proof
      fix g' assume "g' \<in> set (files ?v')"
      then obtain g where g: "g \<in> set (files (vault_of st))" "g' = ?upd g"
        using fs by auto
      show "blocked s info t ?v' g' \<or> g' \<in> set rest"
      proof (cases "g = f")
        case True
        then have "g' = f\<lparr>path := p\<rparr>" using g(2) by simp
        then show ?thesis using archive_target_moved[OF under] by (simp add: blocked_def)
      next
        case neq: False
        then have g': "g' = g" using g(2) by simp
        consider "blocked s info t (vault_of st) g" | "g \<in> set rest"
          using inv g(1) neq by auto
        then show ?thesis
        proof cases
          case 1
          have "blocked s info t ?v' g"
          proof (cases "archive_target s info t g")
            case None
            then show ?thesis by (simp add: blocked_def)
          next
            case (Some q)
            have q: "adapter_exists (vault_of st) q" using 1 Some by (simp add: blocked_def)
            have qu: "startsWith q (targetFolder s @ ''/'')" by (rule archive_target_under[OF Some])
            have "adapter_exists ?v' q"
            proof (cases "q \<in> set (folders (vault_of st))")
              case True
              then show ?thesis using st2(3) fo by (auto simp: adapter_exists_def)
            next
              case False
              then obtain h where h: "h \<in> set (files (vault_of st))" "path h = q"
                using q by (auto simp: adapter_exists_def)
              have "h \<noteq> f" using h(2) qu outside by auto
              then have "?upd h = h" by simp
              then have "h \<in> set (files ?v')" using h(1) fs by force
              then show ?thesis using h(2) by (auto simp: adapter_exists_def)
            qed
            then show ?thesis using Some by (simp add: blocked_def)
          qed
          then show ?thesis using g' by simp
        next
          case 2
          then show ?thesis using g' by simp
        qed
      qed
    qed
  qed
qed

lemma move_steps_settle:
  assumes "\<forall>g\<in>set (files (vault_of st)). blocked s info t (vault_of st) g \<or> g \<in> set fs"
  shows "\<forall>g\<in>set (files (vault_of (foldl (\<lambda>st f. move_step s info t f st) st fs))).
           blocked s info t (vault_of (foldl (\<lambda>st f. move_step s info t f st) st fs)) g"
  using assms
proof (induction fs arbitrary: st)
  case Nil
  then show ?case by simp
next
  case (Cons f fs)
  show ?case using Cons.IH[OF move_step_settles[OF Cons.prems]] by simp
qed

lemma move_step_blocked:
  assumes "blocked s info t (vault_of st) f"
  shows "files (vault_of (move_step s info t f st)) = files (vault_of st)"
    and "set (folders (vault_of st)) \<subseteq> set (folders (vault_of (move_step s info t f st)))"
    and "movedCount (move_step s info t f st) = movedCount st"
proof -
  have "files (vault_of (move_step s info t f st)) = files (vault_of st)
      \<and> set (folders (vault_of st)) \<subseteq> set (folders (vault_of (move_step s info t f st)))
      \<and> movedCount (move_step s info t f st) = movedCount st"
  proof (cases "archive_target s info t f")
    case None
    then show ?thesis using move_step_no_target[OF None, of st] by simp
  next
    case (Some p)
    obtain st2 where st2: "move_step s info t f st = try_rename f p st2"
      "files (vault_of st2) = files (vault_of st)"
      "set (folders (vault_of st)) \<subseteq> set (folders (vault_of st2))"
      "movedCount st2 = movedCount st"
      using move_step_target[OF Some, of st] by blast
    have "adapter_exists (vault_of st) p" using assms Some by (simp add: blocked_def)
    then have "adapter_exists (vault_of st2) p" using exists_mono st2(2,3) by blast
    then show ?thesis using st2 try_rename_blocked by simp
  qed
  then show "files (vault_of (move_step s info t f st)) = files (vault_of st)"
    and "set (folders (vault_of st)) \<subseteq> set (folders (vault_of (move_step s info t f st)))"
    and "movedCount (move_step s info t f st) = movedCount st"
    by simp_all
qed

lemma move_steps_blocked:
  assumes "\<forall>g\<in>set fs. blocked s info t (vault_of st) g"
  shows "files (vault_of (foldl (\<lambda>st f. move_step s info t f st) st fs)) = files (vault_of st)
       \<and> movedCount (foldl (\<lambda>st f. move_step s info t f st) st fs) = movedCount st"
  using assms
proof (induction fs arbitrary: st)
  case Nil
  then show ?case by simp
next
  case (Cons f fs)
  have b: "blocked s info t (vault_of st) f" using Cons.prems by simp
  note st' = move_step_blocked[OF b]
  have "\<forall>g\<in>set fs. blocked s info t (vault_of (move_step s info t f st)) g"
    using Cons.prems blocked_mono[OF _ st'(1) st'(2)] by simp
  from Cons.IH[OF this] show ?case using st' by simp
qed

subsection \<open>Which files a pass touches\<close>

lemma try_rename_calls: "calls (try_rename f p st) = calls st @ [Rename f p]"
  by (simp add: try_rename_def split: sum.splits)

lemma try_rename_keeps:
  assumes "g \<in> set (files (vault_of st))" "g \<noteq> f"
  shows "g \<in> set (files (vault_of (try_rename f p st)))"
proof (cases "adapter_exists (vault_of st) p")
  case True
  then show ?thesis using assms try_rename_blocked[OF True] by simp
next
  case False
  have "(\<lambda>h. if h = f then h\<lparr>path := p\<rparr> else h) g = g" using assms(2) by simp
  then have "g \<in> (\<lambda>h. if h = f then h\<lparr>path := p\<rparr> else h) ` set (files (vault_of st))"
    using assms(1) by force
  then show ?thesis using try_rename_free[OF False] by simp
qed

lemma move_step_calls:
  "\<exists>cs. calls (move_step s info t g st) = calls st @ cs
     \<and> (\<forall>c\<in>set cs. is_create c \<or> (\<exists>p. c = Rename g p \<and> archive_target s info t g = Some p))"
proof (cases "archive_target s info t g")
  case None
  then show ?thesis using move_step_no_target(4)[OF None, of st] by (auto simp: list_all_iff)
next
  case (Some p)
  obtain st2 cs where st2: "move_step s info t g st = try_rename g p st2"
    "calls st2 = calls st @ cs" "list_all is_create cs"
    using move_step_target[OF Some, of st] by blast
  have "calls (move_step s info t g st) = calls st @ (cs @ [Rename g p])"
    using st2 by (simp add: try_rename_calls)
  moreover have "\<forall>c\<in>set (cs @ [Rename g p]).
      is_create c \<or> (\<exists>q. c = Rename g q \<and> archive_target s info t g = Some q)"
    using st2(3) Some by (auto simp: list_all_iff)
  ultimately show ?thesis by blast
qed

lemma move_step_keeps:
  assumes "f \<in> set (files (vault_of st))" "archive_target s info t f = None"
  shows "f \<in> set (files (vault_of (move_step s info t g st)))"
proof (cases "archive_target s info t g")
  case None
  then show ?thesis using assms(1) move_step_no_target(1)[OF None, of st] by simp
next
  case (Some p)
  obtain st2 where st2: "move_step s info t g st = try_rename g p st2"
    "files (vault_of st2) = files (vault_of st)"
    using move_step_target[OF Some, of st] by blast
  have "f \<noteq> g" using Some assms(2) by auto
  then show ?thesis using st2 assms(1) try_rename_keeps[of f st2 g p] by simp
qed

lemma move_steps_untouched:
  assumes "archive_target s info t f = None"
    and "f \<in> set (files (vault_of st))" and "\<forall>p. Rename f p \<notin> set (calls st)"
  shows "f \<in> set (files (vault_of (foldl (\<lambda>st g. move_step s info t g st) st fs)))
       \<and> (\<forall>p. Rename f p \<notin> set (calls (foldl (\<lambda>st g. move_step s info t g st) st fs)))"
  using assms(2,3)
proof (induction fs arbitrary: st)
  case Nil
  then show ?case by simp
next
  case (Cons g fs)
  have k: "f \<in> set (files (vault_of (move_step s info t g st)))"
    using move_step_keeps[OF Cons.prems(1) assms(1)] .
  obtain cs where cs: "calls (move_step s info t g st) = calls st @ cs"
    "\<forall>c\<in>set cs. is_create c \<or> (\<exists>p. c = Rename g p \<and> archive_target s info t g = Some p)"
    using move_step_calls by blast
  have "\<forall>p. Rename f p \<notin> set cs"
    using cs(2) assms(1) by (fastforce simp: is_create_def)
  then have c: "\<forall>p. Rename f p \<notin> set (calls (move_step s info t g st))"
    using cs(1) Cons.prems(2) by simp
  show ?case using Cons.IH[OF k c] by simp
qed

lemma relocate_step_calls:
  "\<exists>cs. calls (relocate_step s info g st) = calls st @ cs
     \<and> (\<forall>c\<in>set cs. is_create c \<or> (\<exists>p. c = Rename g p \<and> file_date info g \<noteq> None))"
proof (cases "file_date info g")
  case None
  then show ?thesis by (simp add: relocate_step_def relocate_file_eq)
next
  case (Some d)
  obtain cs where cs: "calls (with_folders s d st) = calls st @ cs" "list_all is_create cs"
    using with_folders_calls by blast
  have "calls (relocate_step s info g st) = calls st @ (cs @ [Rename g (destination s g d)])"
    using Some cs(1) by (simp add: relocate_step_def relocate_file_eq try_rename_calls)
  moreover have "\<forall>c\<in>set (cs @ [Rename g (destination s g d)]).
      is_create c \<or> (\<exists>p. c = Rename g p \<and> file_date info g \<noteq> None)"
    using cs(2) Some by (auto simp: list_all_iff)
  ultimately show ?thesis by blast
qed

lemma relocate_step_keeps:
  assumes "f \<in> set (files (vault_of st))" "file_date info f = None"
  shows "f \<in> set (files (vault_of (relocate_step s info g st)))"
proof (cases "file_date info g")
  case None
  then show ?thesis using assms(1) by (simp add: relocate_step_def relocate_file_eq)
next
  case (Some d)
  have "f \<noteq> g" using Some assms(2) by auto
  then show ?thesis
    using Some assms(1) try_rename_keeps[of f "with_folders s d st" g]
    by (simp add: relocate_step_def relocate_file_eq)
qed

lemma relocate_steps_untouched:
  assumes "file_date info f = None"
    and "f \<in> set (files (vault_of st))" and "\<forall>p. Rename f p \<notin> set (calls st)"
  shows "f \<in> set (files (vault_of (foldl (\<lambda>st g. relocate_step s info g st) st fs)))
       \<and> (\<forall>p. Rename f p \<notin> set (calls (foldl (\<lambda>st g. relocate_step s info g st) st fs)))"
  using assms(2,3)
proof (induction fs arbitrary: st)
  case Nil
  then show ?case by simp
next
  case (Cons g fs)
  have k: "f \<in> set (files (vault_of (relocate_step s info g st)))"
    using relocate_step_keeps[OF Cons.prems(1) assms(1)] .
  obtain cs where cs: "calls (relocate_step s info g st) = calls st @ cs"
    "\<forall>c\<in>set cs. is_create c \<or> (\<exists>p. c = Rename g p \<and> file_date info g \<noteq> None)"
    using relocate_step_calls by blast
  have "\<forall>p. Rename f p \<notin> set cs"
    using cs(2) assms(1) by (fastforce simp: is_create_def)
  then have c: "\<forall>p. Rename f p \<notin> set (calls (relocate_step s info g st))"
    using cs(1) Cons.prems(2) by simp
  show ?case using Cons.IH[OF k c] by simp
qed

subsection \<open>The operations as a whole\<close>

lemma getDateFormatInfo_string:
  "dateFormat s = JString fmt \<Longrightarrow>
   getDateFormatInfo s = Some (compile (if fmt = [] then ''DD-MM-YYYY'' else fmt))"
  by (subst getDateFormatInfo.simps) simp


lemma moveOldDailyNotes_eq:
  assumes "getDateFormatInfo s = Some info"
  shows "moveOldDailyNotes s today v =
    Inr (foldl (\<lambda>st f. move_step s info (iso today) f st) (ensured (targetFolder s) (start v)) (files v))"
  using assms
  by (simp add: moveOldDailyNotes_def ensure_folder_ensured move_loop_foldl start_def)

lemma relocateOldNotes_eq:
  assumes "getDateFormatInfo s = Some info"
  shows "relocateOldNotes s v =
    Inr (foldl (\<lambda>st f. relocate_step s info f st) (ensured (targetFolder s) (start v))
          (filter (\<lambda>file. startsWith (path file) ''Old Daily Notes/'') (files v)))"
  using assms
  by (simp add: relocateOldNotes_def ensure_folder_ensured relocate_loop_foldl start_def)

section \<open>Properties of the operations\<close>

lemma default_format_facts:
  "regex_test (regex (compile ''DD-MM-YYYY'')) ''15-07-2019.md''"
  "replace_md ''15-07-2019.md'' = ''15-07-2019''"
  "parseDate (compile ''DD-MM-YYYY'') ''15-07-2019'' = Some (Date 2019 6 15)"
  "iso (Date 2019 6 15) = ''2019-07-15''"
  "String 2019 = ''2019''"
  "padStart2 (String 7) = ''07''"
  by code_simp+

text \<open>
  Claim C6.  For a file named \<^verbatim>\<open>15-07-2019.md\<close> outside the target folder, under the format
  \<^verbatim>\<open>DD-MM-YYYY\<close> and the target folder \<^verbatim>\<open>Archive\<close>, on a day other than 15 July 2019,
  the loop body of the archive pass calls \<^verbatim>\<open>rename\<close> with the destination
  \<^verbatim>\<open>Archive/2019/07/15-07-2019.md\<close> when year and month subfolders are on, after creating
  \<^verbatim>\<open>Archive/2019\<close> and \<^verbatim>\<open>Archive/2019/07\<close> where they do not exist yet, and with
  \<^verbatim>\<open>Archive/15-07-2019.md\<close> when they are off.  The month is written with two digits.
\<close>

theorem destination_example:
  assumes "name file = ''15-07-2019.md''" and "extension file = ''md''"
    and "targetFolder s = ''Archive''" and "dateFormat s = JString ''DD-MM-YYYY''"
    and "\<not> startsWith (path file) ''Archive/''" and "iso today \<noteq> ''2019-07-15''"
  shows "\<exists>info st'. getDateFormatInfo s = Some info
     \<and> move_file s info (iso today) file st = Inr st'
     \<and> calls st' = calls st
         @ (if useYearMonthSubfolders s then
              (if adapter_exists (vault_of st) ''Archive/2019'' then []
               else [CreateFolder ''Archive/2019''])
              @ (if adapter_exists (vault_of st) ''Archive/2019/07'' then []
                 else [CreateFolder ''Archive/2019/07''])
              @ [Rename file ''Archive/2019/07/15-07-2019.md'']
            else [Rename file ''Archive/15-07-2019.md''])"
proof -
  let ?info = "compile ''DD-MM-YYYY''"
  let ?d = "Date 2019 6 15"
  let ?st1 = "st\<lparr>foundCount := foundCount st + 1\<rparr>"
  have info: "getDateFormatInfo s = Some ?info"
    using getDateFormatInfo_string[OF assms(4)] by simp
  have fd: "file_date ?info file = Some ?d"
    using assms(1,2) default_format_facts(1-3) by (simp add: file_date_def)
  have step: "move_file s ?info (iso today) file st
      = Inr (try_rename file (destination s file ?d) (with_folders s ?d ?st1))"
    using fd assms(3,5,6) default_format_facts(4) by (simp add: move_file_eq)
  have yf: "year_folder s ?d = ''Archive/2019''"
    using assms(3) default_format_facts(5) by (simp add: year_folder_def)
  have mf: "month_folder s ?d = ''Archive/2019/07''"
    using yf default_format_facts(6) by (simp add: month_folder_def)
  have dest: "destination s file ?d =
      (if useYearMonthSubfolders s then ''Archive/2019/07/15-07-2019.md''
       else ''Archive/15-07-2019.md'')"
    using assms(1,3) mf by (simp add: destination_def)
  have wf: "calls (with_folders s ?d ?st1) = calls st
      @ (if useYearMonthSubfolders s then
           (if adapter_exists (vault_of st) ''Archive/2019'' then []
            else [CreateFolder ''Archive/2019''])
           @ (if adapter_exists (vault_of st) ''Archive/2019/07'' then []
              else [CreateFolder ''Archive/2019/07''])
         else [])"
    by (simp add: with_folders_def yf mf ensured_def adapter_exists_def)
  show ?thesis
    using info step dest wf by (simp add: try_rename_calls)
qed

theorem destination_example_witness:
  "\<exists>info st'. getDateFormatInfo (archive_settings True) = Some info
     \<and> move_file (archive_settings True) info (iso example_today) note_2019 (start example_vault)
         = Inr st'
     \<and> calls st' = [CreateFolder ''Archive/2019'', CreateFolder ''Archive/2019/07'',
                     Rename note_2019 ''Archive/2019/07/15-07-2019.md'']"
proof -
  have h: "name note_2019 = ''15-07-2019.md''" "extension note_2019 = ''md''"
    "targetFolder (archive_settings True) = ''Archive''"
    "dateFormat (archive_settings True) = JString ''DD-MM-YYYY''"
    "\<not> startsWith (path note_2019) ''Archive/''"
    "iso example_today \<noteq> ''2019-07-15''"
    by code_simp+
  have e: "\<not> adapter_exists (vault_of (start example_vault)) ''Archive/2019''"
    "\<not> adapter_exists (vault_of (start example_vault)) ''Archive/2019/07''"
    "useYearMonthSubfolders (archive_settings True)"
    "calls (start example_vault) = []"
    by code_simp+
  show ?thesis
    using destination_example[OF h, of "start example_vault"] e by simp
qed

text \<open>
  Claim C1, for the pass over the whole vault.  Whatever the settings (format, subfolder
  mode, target folder) and the vault, a file whose parsed date is today's is still among the
  files after \<^verbatim>\<open>moveOldDailyNotes\<close>, and no \<^verbatim>\<open>rename\<close> was called on it.
\<close>

theorem today_never_archived:
  assumes "getDateFormatInfo s = Some info"
    and "parseDate info (replace_md (name f)) = Some today"
    and "f \<in> set (files v)"
  shows "\<exists>st. moveOldDailyNotes s today v = Inr st
           \<and> f \<in> set (files (vault_of st)) \<and> (\<forall>p. Rename f p \<notin> set (calls st))"
proof -
  have none: "archive_target s info (iso today) f = None"
    using assms(2) by (auto simp: archive_target_def file_date_def split: option.splits)
  let ?st0 = "ensured (targetFolder s) (start v)"
  have f0: "f \<in> set (files (vault_of ?st0))" using assms(3) by (simp add: start_def)
  have c0: "\<forall>p. Rename f p \<notin> set (calls ?st0)"
    by (simp add: ensured_def start_def)
  show ?thesis
    using move_steps_untouched[OF none f0 c0, of "files v"] moveOldDailyNotes_eq[OF assms(1)]
    by simp
qed

theorem today_never_archived_witness:
  "\<exists>st. moveOldDailyNotes (archive_settings True) example_today example_vault = Inr st
     \<and> note_today \<in> set (files (vault_of st)) \<and> (\<forall>p. Rename note_today p \<notin> set (calls st))"
proof -
  have a: "getDateFormatInfo (archive_settings True) = Some (compile ''DD-MM-YYYY'')"
    using getDateFormatInfo_string[of "archive_settings True" "''DD-MM-YYYY''"]
    by (simp add: archive_settings_def)
  have b: "parseDate (compile ''DD-MM-YYYY'') (replace_md (name note_today)) = Some example_today"
    by code_simp
  have c: "note_today \<in> set (files example_vault)"
    by (simp add: example_vault_def)
  show ?thesis by (rule today_never_archived[OF a b c])
qed

text \<open>
  \<^verbatim>\<open>relocateOldNotes\<close> compares no date with today's: a note under the legacy folder
  whose parsed date is today's is moved by it.
\<close>

theorem relocation_moves_today:
  "parseDate (compile ''DD-MM-YYYY'') (replace_md (name note_today)) = Some example_today
   \<and> relocateOldNotes (archive_settings False) example_vault =
       Inr \<lparr>vault_of =
              \<lparr>files = [note_2019, note_today\<lparr>path := ''Archive/02-11-2026.md''\<rparr>],
               folders = [''Daily'', ''Old Daily Notes'', ''Archive'']\<rparr>,
            foundCount = 0, movedCount = 1, skippedCount = 0,
            calls = [CreateFolder ''Archive'', Rename note_today ''Archive/02-11-2026.md'']\<rparr>"
  by code_simp

text \<open>
  Claim C7.  The loop body of the archive pass leaves a file whose path starts with the
  target folder and a slash where it is: no \<^verbatim>\<open>rename\<close> is called and nothing is counted as
  moved.  And when the format is a string, a pass over the vault returns, a second pass
  over the vault the first one left returns too, moves no file and leaves every file where
  it was.
\<close>

theorem archive_pass_idempotent:
  "(startsWith (path f) (targetFolder s @ ''/'') \<longrightarrow>
      (\<exists>st' cs. move_file s info t f st = Inr st'
         \<and> files (vault_of st') = files (vault_of st) \<and> movedCount st' = movedCount st
         \<and> calls st' = calls st @ cs \<and> (\<forall>g p. Rename g p \<notin> set cs)))
   \<and> (dateFormat s = JString fmt \<longrightarrow>
      (\<exists>st1 st2. moveOldDailyNotes s today v = Inr st1
         \<and> moveOldDailyNotes s today (vault_of st1) = Inr st2
         \<and> movedCount st2 = 0 \<and> files (vault_of st2) = files (vault_of st1)))"
proof (intro conjI impI)
  assume "startsWith (path f) (targetFolder s @ ''/'')"
  then have none: "archive_target s info t f = None"
    by (simp add: archive_target_def split: option.splits)
  obtain cs where cs: "calls (move_step s info t f st) = calls st @ cs" "list_all is_create cs"
    using move_step_no_target(4)[OF none] by blast
  have "\<forall>g p. Rename g p \<notin> set cs"
    using cs(2) by (auto simp: list_all_iff is_create_def)
  then show "\<exists>st' cs. move_file s info t f st = Inr st'
         \<and> files (vault_of st') = files (vault_of st) \<and> movedCount st' = movedCount st
         \<and> calls st' = calls st @ cs \<and> (\<forall>g p. Rename g p \<notin> set cs)"
    using move_file_step[of s info t f st] move_step_no_target(1,3)[OF none, of st] cs(1)
    by blast
next
  assume "dateFormat s = JString fmt"
  then obtain info' where info': "getDateFormatInfo s = Some info'"
    using getDateFormatInfo_string by blast
  let ?step = "\<lambda>st f. move_step s info' (iso today) f st"
  let ?st0 = "ensured (targetFolder s) (start v)"
  let ?st1 = "foldl ?step ?st0 (files v)"
  let ?st0' = "ensured (targetFolder s) (start (vault_of ?st1))"
  let ?st2 = "foldl ?step ?st0' (files (vault_of ?st1))"
  have r1: "moveOldDailyNotes s today v = Inr ?st1"
    by (rule moveOldDailyNotes_eq[OF info'])
  have r2: "moveOldDailyNotes s today (vault_of ?st1) = Inr ?st2"
    by (rule moveOldDailyNotes_eq[OF info'])
  have "\<forall>g\<in>set (files (vault_of ?st0)). blocked s info' (iso today) (vault_of ?st0) g
      \<or> g \<in> set (files v)"
    by (simp add: start_def)
  then have settled: "\<forall>g\<in>set (files (vault_of ?st1)). blocked s info' (iso today) (vault_of ?st1) g"
    by (rule move_steps_settle)
  have f0: "files (vault_of ?st0') = files (vault_of ?st1)" by (simp add: start_def)
  have fo: "set (folders (vault_of ?st1)) \<subseteq> set (folders (vault_of ?st0'))"
    using ensured_folders[of "start (vault_of ?st1)" "targetFolder s"] by (simp add: start_def)
  have "\<forall>g\<in>set (files (vault_of ?st1)). blocked s info' (iso today) (vault_of ?st0') g"
    using settled blocked_mono[OF _ f0 fo] by blast
  then have "files (vault_of ?st2) = files (vault_of ?st0') \<and> movedCount ?st2 = movedCount ?st0'"
    by (rule move_steps_blocked)
  then have "movedCount ?st2 = 0 \<and> files (vault_of ?st2) = files (vault_of ?st1)"
    using f0 by (simp add: start_def)
  then show "\<exists>st1 st2. moveOldDailyNotes s today v = Inr st1
         \<and> moveOldDailyNotes s today (vault_of st1) = Inr st2
         \<and> movedCount st2 = 0 \<and> files (vault_of st2) = files (vault_of st1)"
    using r1 r2 by blast
qed

theorem archive_pass_idempotent_witness:
  "(\<exists>st' cs. move_file (archive_settings True) (compile ''DD-MM-YYYY'') (iso example_today)
              archived_2019 (start example_vault) = Inr st'
      \<and> files (vault_of st') = files (vault_of (start example_vault))
      \<and> movedCount st' = movedCount (start example_vault)
      \<and> calls st' = calls (start example_vault) @ cs \<and> (\<forall>g p. Rename g p \<notin> set cs))
   \<and> (\<exists>st1 st2. moveOldDailyNotes (archive_settings True) example_today example_vault = Inr st1
      \<and> moveOldDailyNotes (archive_settings True) example_today (vault_of st1) = Inr st2
      \<and> movedCount st1 = 1 \<and> movedCount st2 = 0
      \<and> files (vault_of st2) = files (vault_of st1))"
proof -
  have a: "startsWith (path archived_2019) (targetFolder (archive_settings True) @ ''/'')"
    by code_simp
  have b: "dateFormat (archive_settings True) = JString ''DD-MM-YYYY''"
    by (simp add: archive_settings_def)
  have c: "case moveOldDailyNotes (archive_settings True) example_today example_vault of
             Inl e \<Rightarrow> False | Inr st \<Rightarrow> movedCount st = 1"
    by code_simp
  show ?thesis
    using archive_pass_idempotent[of archived_2019 "archive_settings True"
        "compile ''DD-MM-YYYY''" "iso example_today" "start example_vault" "''DD-MM-YYYY''"
        example_today example_vault] a b c
    by (auto split: sum.splits)
qed


text \<open>\<^verbatim>\<open>onload\<close> leaves a format that passes \<^verbatim>\<open>isValidDateFormat\<close>.\<close>

lemma onload_valid: "isValidDateFormat (dateFormat (onload d))"
proof -
  have "isValidDateFormat (JString ''DD-MM-YYYY'')" by code_simp
  then show ?thesis by (simp add: onload_def Let_def)
qed

text \<open>
  Claim C2.  After \<^verbatim>\<open>onload\<close> the format is valid, but the text field's \<^verbatim>\<open>onChange\<close>
  stores what was typed: after typing \<^verbatim>\<open>foo\<close> the format holds no token, it is not
  replaced, and the operations compile it (to a pattern that accepts \<^verbatim>\<open>.md\<close> only).
\<close>

theorem edited_format_not_validated:
  "isValidDateFormat (dateFormat (onload no_saved_data))
   \<and> dateFormat (onChange_dateFormat ''foo'' (onload no_saved_data)) = JString ''foo''
   \<and> \<not> isValidDateFormat (JString ''foo'')
   \<and> getDateFormatInfo (onChange_dateFormat ''foo'' (onload no_saved_data))
       = Some \<lparr>regex = map Lit ''.md'', parts = [], separator = []\<rparr>"
proof -
  have a: "dateFormat (onChange_dateFormat ''foo'' (onload no_saved_data)) = JString ''foo''"
    by (simp add: onChange_dateFormat_def)
  have b: "\<not> isValidDateFormat (JString ''foo'')" by code_simp
  have c: "compile ''foo'' = \<lparr>regex = map Lit ''.md'', parts = [], separator = []\<rparr>"
    by code_simp
  show ?thesis using a b c getDateFormatInfo_string[OF a] onload_valid by simp
qed

section \<open>The parser\<close>

lemma parseDate_segments:
  "parseDate info s =
     (if \<not> regex_test (regex info) (replace_md s @ ''.md'') then None
      else case parse_loop (parts info) (segments_of info s) (Undefined, Undefined, Undefined) of
          None \<Rightarrow> None
        | Some (day, month, year) \<Rightarrow>
            if \<not> truthy day \<or> \<not> truthy month \<or> \<not> truthy year then None
            else
              (case (year, month, day) of
                 (Num y, Num m, Num d) \<Rightarrow>
                   (let date = new_Date y (m - 1) d in
                    if getFullYear date \<noteq> y \<or> getMonth date + 1 \<noteq> m \<or> getDate date \<noteq> d
                    then None else Some date)
               | _ \<Rightarrow> None))"
  by (simp add: parseDate_def segments_of_def Let_def)












lemma parse_loop_keeps_day:
  assumes "parse_loop ps segs (d, m, y) = Some (d', m', y')" "\<forall>p\<in>set ps. ptype p \<noteq> Some Day"
  shows "d' = d"
  using assms
proof (induction ps arbitrary: segs d m y)
  case Nil
  then show ?case by simp
next
  case (Cons p ps)
  obtain seg segs' where segs: "segs = seg # segs'"
    using Cons.prems(1) by (cases segs) auto
  have "\<exists>m2 y2. parse_loop ps segs' (d, m2, y2) = Some (d', m', y')"
    using Cons.prems segs
    by (auto simp: Let_def split: if_splits option.splits field_type.splits)
  then show ?case using Cons.IH Cons.prems(2) by auto
qed

lemma parse_loop_keeps_month:
  assumes "parse_loop ps segs (d, m, y) = Some (d', m', y')" "\<forall>p\<in>set ps. ptype p \<noteq> Some Month"
  shows "m' = m"
  using assms
proof (induction ps arbitrary: segs d m y)
  case Nil
  then show ?case by simp
next
  case (Cons p ps)
  obtain seg segs' where segs: "segs = seg # segs'"
    using Cons.prems(1) by (cases segs) auto
  have "\<exists>d2 y2. parse_loop ps segs' (d2, m, y2) = Some (d', m', y')"
    using Cons.prems segs
    by (auto simp: Let_def split: if_splits option.splits field_type.splits)
  then show ?case using Cons.IH Cons.prems(2) by auto
qed

lemma parse_loop_keeps_year:
  assumes "parse_loop ps segs (d, m, y) = Some (d', m', y')" "\<forall>p\<in>set ps. ptype p \<noteq> Some Year"
  shows "y' = y"
  using assms
proof (induction ps arbitrary: segs d m y)
  case Nil
  then show ?case by simp
next
  case (Cons p ps)
  obtain seg segs' where segs: "segs = seg # segs'"
    using Cons.prems(1) by (cases segs) auto
  have "\<exists>d2 m2. parse_loop ps segs' (d2, m2, y) = Some (d', m', y')"
    using Cons.prems segs
    by (auto simp: Let_def split: if_splits option.splits field_type.splits)
  then show ?case using Cons.IH Cons.prems(2) by auto
qed

lemma parseDate_needs_all:
  assumes "(\<forall>p\<in>set (parts info). ptype p \<noteq> Some Day)
         \<or> (\<forall>p\<in>set (parts info). ptype p \<noteq> Some Month)
         \<or> (\<forall>p\<in>set (parts info). ptype p \<noteq> Some Year)"
  shows "parseDate info s = None"
proof (cases "parseDate info s")
  case None
  then show ?thesis .
next
  case (Some date)
  obtain dv mv yv where loop:
    "parse_loop (parts info) (segments_of info s) (Undefined, Undefined, Undefined) = Some (dv, mv, yv)"
    and t: "truthy dv" "truthy mv" "truthy yv"
    using Some unfolding parseDate_segments
    by (auto split: if_splits option.splits prod.splits)
  have "dv = Undefined \<or> mv = Undefined \<or> yv = Undefined"
    using assms parse_loop_keeps_day[OF loop] parse_loop_keeps_month[OF loop]
      parse_loop_keeps_year[OF loop] by blast
  then show ?thesis using t by auto
qed

section \<open>Compiled patterns\<close>






lemma format_split_no_sep: "\<forall>c\<in>set fmt. \<not> is_sep c \<Longrightarrow> format_split fmt = [fmt]"
  by (induction fmt) auto











lemma re_match_literal: "re_match (map Lit w) s \<longleftrightarrow> s = w"
  by (induction w arbitrary: s) (auto split: list.splits)



section \<open>Properties of the compiler and the parser\<close>




lemma compile_no_sep:
  assumes "\<forall>c\<in>set fmt. \<not> is_sep c"
  shows "compile fmt =
     (case tokens fmt of
        None \<Rightarrow> \<lparr>regex = map Lit ''.md'', parts = [], separator = []\<rparr>
      | Some e \<Rightarrow>
          \<lparr>regex = entry_regex e @ map Lit ''.md'', parts = [Part fmt (entry_type e)],
           separator = []\<rparr>)"
proof -
  have "\<not> list_ex is_sep fmt" using assms by (simp add: list_ex_iff)
  then show ?thesis
    by (simp add: compile_def format_split_no_sep[OF assms] compile_part_def Let_def
        split: option.splits)
qed

lemma file_date_None_target: "file_date info f = None \<Longrightarrow> archive_target s info t f = None"
  by (simp add: archive_target_def)

lemma never_parsed_untouched:
  assumes "getDateFormatInfo s = Some info" "file_date info f = None" "f \<in> set (files v)"
  shows "(\<exists>r. moveOldDailyNotes s today v = Inr r
            \<and> f \<in> set (files (vault_of r)) \<and> (\<forall>p. Rename f p \<notin> set (calls r)))
       \<and> (\<exists>r. relocateOldNotes s v = Inr r
            \<and> f \<in> set (files (vault_of r)) \<and> (\<forall>p. Rename f p \<notin> set (calls r)))"
proof -
  let ?st0 = "ensured (targetFolder s) (start v)"
  have f0: "f \<in> set (files (vault_of ?st0))" using assms(3) by (simp add: start_def)
  have c0: "\<forall>p. Rename f p \<notin> set (calls ?st0)" by (simp add: ensured_def start_def)
  have a: "\<exists>r. moveOldDailyNotes s today v = Inr r
            \<and> f \<in> set (files (vault_of r)) \<and> (\<forall>p. Rename f p \<notin> set (calls r))"
    using move_steps_untouched[OF file_date_None_target[OF assms(2), of s "iso today"] f0 c0,
        of "files v"]
      moveOldDailyNotes_eq[OF assms(1)] by simp
  have b: "\<exists>r. relocateOldNotes s v = Inr r
            \<and> f \<in> set (files (vault_of r)) \<and> (\<forall>p. Rename f p \<notin> set (calls r))"
    using relocate_steps_untouched[OF assms(2) f0 c0] relocateOldNotes_eq[OF assms(1)] by simp
  show ?thesis using a b by simp
qed

text \<open>
  Claim C9, as the code has it.  A non-empty format without \<^verbatim>\<open>-\<close> and \<^verbatim>\<open>/\<close> is one
  part.  Unless that part is itself a key of the token table (own or inherited), the pattern
  is \<^verbatim>\<open>^\.md$\<close> and accepts the name \<^verbatim>\<open>.md\<close> only.  In every case \<^verbatim>\<open>parseDate\<close>
  returns \<^verbatim>\<open>null\<close> on every input, and neither operation moves or renames a file.
\<close>

theorem no_separator_format:
  assumes "fmt \<noteq> []" and "\<forall>c\<in>set fmt. \<not> is_sep c"
  shows "(tokens fmt = None \<longrightarrow>
            regex (compile fmt) = map Lit ''.md''
            \<and> (regex_test (regex (compile fmt)) nm \<longleftrightarrow> nm = ''.md''))
       \<and> parseDate (compile fmt) dateStr = None
       \<and> (dateFormat s = JString fmt \<and> f \<in> set (files v) \<longrightarrow>
            (\<exists>r. moveOldDailyNotes s today v = Inr r
               \<and> f \<in> set (files (vault_of r)) \<and> (\<forall>p. Rename f p \<notin> set (calls r)))
            \<and> (\<exists>r. relocateOldNotes s v = Inr r
               \<and> f \<in> set (files (vault_of r)) \<and> (\<forall>p. Rename f p \<notin> set (calls r))))"
proof -
  have c: "compile fmt =
     (case tokens fmt of
        None \<Rightarrow> \<lparr>regex = map Lit ''.md'', parts = [], separator = []\<rparr>
      | Some e \<Rightarrow>
          \<lparr>regex = entry_regex e @ map Lit ''.md'', parts = [Part fmt (entry_type e)],
           separator = []\<rparr>)"
    by (rule compile_no_sep[OF assms(2)])
  have one: "length (parts (compile fmt)) \<le> 1"
    using c by (simp split: option.splits)
  have missing: "(\<forall>p\<in>set (parts (compile fmt)). ptype p \<noteq> Some Day)
         \<or> (\<forall>p\<in>set (parts (compile fmt)). ptype p \<noteq> Some Month)
         \<or> (\<forall>p\<in>set (parts (compile fmt)). ptype p \<noteq> Some Year)"
  proof (cases "parts (compile fmt)")
    case Nil
    then show ?thesis by simp
  next
    case (Cons p ps)
    then have "ps = []" using one by simp
    then show ?thesis using Cons by (cases "ptype p") auto
  qed
  have none: "parseDate (compile fmt) x = None" for x
    by (rule parseDate_needs_all[OF missing])
  have p1: "tokens fmt = None \<longrightarrow>
            regex (compile fmt) = map Lit ''.md''
            \<and> (regex_test (regex (compile fmt)) nm \<longleftrightarrow> nm = ''.md'')"
    using c re_match_literal[of "''.md''" nm] by (simp add: regex_test_def)
  have p3: "dateFormat s = JString fmt \<and> f \<in> set (files v) \<longrightarrow>
            (\<exists>r. moveOldDailyNotes s today v = Inr r
               \<and> f \<in> set (files (vault_of r)) \<and> (\<forall>p. Rename f p \<notin> set (calls r)))
            \<and> (\<exists>r. relocateOldNotes s v = Inr r
               \<and> f \<in> set (files (vault_of r)) \<and> (\<forall>p. Rename f p \<notin> set (calls r)))"
  proof
    assume a: "dateFormat s = JString fmt \<and> f \<in> set (files v)"
    then have info: "getDateFormatInfo s = Some (compile fmt)"
      using getDateFormatInfo_string[of s fmt] assms(1) by simp
    have fd: "file_date (compile fmt) f = None" using none by (simp add: file_date_def)
    show "(\<exists>r. moveOldDailyNotes s today v = Inr r
               \<and> f \<in> set (files (vault_of r)) \<and> (\<forall>p. Rename f p \<notin> set (calls r)))
            \<and> (\<exists>r. relocateOldNotes s v = Inr r
               \<and> f \<in> set (files (vault_of r)) \<and> (\<forall>p. Rename f p \<notin> set (calls r)))"
      using never_parsed_untouched[OF info fd] a by blast
  qed
  show ?thesis using p1 none p3 by blast
qed

theorem no_separator_format_witness:
  "regex (compile ''DDMMMYYYY'') = map Lit ''.md''
   \<and> \<not> regex_test (regex (compile ''DDMMMYYYY'')) ''15Jul2019.md''
   \<and> parseDate (compile ''DDMMMYYYY'') ''15Jul2019'' = None
   \<and> (\<exists>r. moveOldDailyNotes (format_settings ''DDMMMYYYY'') example_today
              \<lparr>files = [note_compact], folders = [''Daily'']\<rparr> = Inr r
         \<and> note_compact \<in> set (files (vault_of r))
         \<and> (\<forall>p. Rename note_compact p \<notin> set (calls r)))
   \<and> (\<exists>r. relocateOldNotes (format_settings ''DDMMMYYYY'')
              \<lparr>files = [note_compact], folders = [''Daily'']\<rparr> = Inr r
         \<and> note_compact \<in> set (files (vault_of r))
         \<and> (\<forall>p. Rename note_compact p \<notin> set (calls r)))"
proof -
  have h: "''DDMMMYYYY'' \<noteq> []" "\<forall>c\<in>set ''DDMMMYYYY''. \<not> is_sep c"
    by (simp_all add: is_sep_def)
  have t: "tokens ''DDMMMYYYY'' = None" by code_simp
  have s: "dateFormat (format_settings ''DDMMMYYYY'') = JString ''DDMMMYYYY''
      \<and> note_compact \<in> set (files \<lparr>files = [note_compact], folders = [''Daily'']\<rparr>)"
    by (simp add: format_settings_def)
  have n: "''15Jul2019.md'' \<noteq> ''.md''" by simp
  show ?thesis
    using no_separator_format[OF h, of "''15Jul2019.md''" "''15Jul2019''"
        "format_settings ''DDMMMYYYY''" note_compact
        "\<lparr>files = [note_compact], folders = [''Daily'']\<rparr>" example_today] t s n
    by blast
qed

text \<open>
  The format \<^verbatim>\<open>YYYY\<close> has no separator and is a token: its pattern holds the token's
  sub-pattern, accepts \<^verbatim>\<open>2020.md\<close>, and the archive pass counts that file as found (and
  then as skipped).
\<close>

theorem single_token_format_matches:
  "\<not> list_ex is_sep ''YYYY''
   \<and> regex (compile ''YYYY'') = [Digits 4, Lit CHR ''.'', Lit CHR ''m'', Lit CHR ''d'']
   \<and> regex_test (regex (compile ''YYYY'')) ''2020.md''
   \<and> move_file (format_settings ''YYYY'') (compile ''YYYY'') (iso example_today) note_year
        (start \<lparr>files = [note_year], folders = [''Daily'']\<rparr>)
      = Inr \<lparr>vault_of = \<lparr>files = [note_year], folders = [''Daily'']\<rparr>,
             foundCount = 1, movedCount = 0, skippedCount = 1, calls = []\<rparr>"
  by code_simp






section \<open>Rendered dates\<close>




























section \<open>The round trip\<close>




text \<open>
  The case the theorem leaves out: \<^verbatim>\<open>MMMM\<close> asks for four letters or more, and the month
  table holds \<^verbatim>\<open>may\<close>, so a date in May written with its full name never matches.
\<close>

lemma may_under_full_month_name:
  "monthNames (toLowerCase ''May'') = Num 5
   \<and> \<not> regex_test (regex (compile ''DD-MMMM-YYYY'')) ''15-May-2019.md''
   \<and> parseDate (compile ''DD-MMMM-YYYY'') ''15-May-2019'' = None"
  by code_simp

end
